theory Spec2Isabelle
  imports Main
begin

section \<open>The S3 binary cache store (src/libstore/s3-binary-cache-store.cc)\<close>

text \<open>
  A shallow embedding of the S3 binary cache store: the chunked downloader
  \<open>S3Helper::getObject\<close> (sink overload), \<open>getFile\<close>, \<open>fileExists\<close>,
  \<open>uploadFile\<close> and the page loop of \<open>queryAllValidPaths\<close>.

  The AWS SDK is the environment. Every answer it gives (the outcome of a HEAD or PUT
  request, the terminal status of a transfer, the order in which progress callbacks
  arrive) is an argument of the function that consumes it. Exceptions are values of the
  type \<open>error\<close>, returned on the left of a sum. Sizes and counters are natural numbers:
  no arithmetic of the modelled functions can wrap (the cursor never passes the object
  size, and the subtraction \<open>object_size - next_chunk_offset\<close> is guarded by the loop
  test).
\<close>

subsection \<open>Errors and outcomes\<close>

text \<open>
  \<open>Aws::S3::S3Errors\<close>: the three classifications the source names, a few others
  of the SDK's enumeration, and \<open>OTHER\<close> for the rest of it.
\<close>

datatype S3Errors =
    ACCESS_DENIED
  | RESOURCE_NOT_FOUND
  | NO_SUCH_KEY
  | NO_SUCH_BUCKET
  | NO_SUCH_UPLOAD
  | INTERNAL_FAILURE
  | NETWORK_CONNECTION
  | SLOW_DOWN
  | UNKNOWN
  | OTHER nat

text \<open>\<open>Aws::Utils::Outcome<R, E>\<close>: a result, or an error type with its message.\<close>

datatype 'r Outcome = Success 'r | Failure S3Errors string

text \<open>\<open>Aws::Transfer::TransferStatus\<close>.\<close>

datatype TransferStatus =
    EXACT_OBJECT_ALREADY_EXISTS
  | NOT_STARTED
  | IN_PROGRESS
  | CANCELED
  | FAILED
  | COMPLETED
  | ABORTED

text \<open>
  The exceptions raised in the file: \<open>nix::Error\<close>, \<open>S3Error\<close> (an \<open>Error\<close>
  with the SDK's classification), \<open>NoSuchBinaryCacheFile\<close>,
  \<open>std::runtime_error\<close>, and the \<open>std::bad_weak_ptr\<close> of \<open>shared_from_this\<close>.
\<close>

datatype error =
    Error string
  | S3Error S3Errors string
  | NoSuchBinaryCacheFile string
  | runtime_error string
  | bad_weak_ptr

text \<open>A \<open>'%s'\<close> of a format string: the argument between single quotes.\<close>

definition quoted :: "string \<Rightarrow> string" where
  "quoted s = [CHR 0x27] @ s @ [CHR 0x27]"

text \<open>\<open>checkAws\<close>: the result of a successful outcome, an \<open>S3Error\<close> otherwise.\<close>

definition checkAws :: "string \<Rightarrow> 'r Outcome \<Rightarrow> error + 'r" where
  "checkAws fs outcome =
     (case outcome of
        Failure err msg \<Rightarrow> Inl (S3Error err (fs @ '': '' @ msg))
      | Success r \<Rightarrow> Inr r)"

subsection \<open>The store instance\<close>

text \<open>
  \<open>Stats\<close> (declared in s3-binary-cache-store.hh): the counters of the store.
\<close>

record Stats =
  put :: nat
  putBytes :: nat
  putTimeMs :: nat
  get :: nat
  getBytes :: nat
  getTimeMs :: nat
  head :: nat

text \<open>
  The requests that reach the network from \<open>fileExists\<close> and \<open>uploadFile\<close>,
  with the arguments the source passes.
\<close>

datatype request =
    HeadObject string string
  | UploadFile string string string
  | PutObject string string string "string option"

text \<open>
  The fields of \<open>S3BinaryCacheStoreImpl\<close> the modelled member functions read or
  write. \<open>transferManager\<close> is the shared pointer (\<open>True\<close>: not null),
  \<open>transferManagerCreated\<close> the once-flag. \<open>network\<close> is the log of the requests
  the instance has issued, oldest first.
\<close>

record S3BinaryCacheStoreImpl =
  bucketName :: string
  stats :: Stats
  multipartUpload :: bool
  bufferSize :: nat
  transferManager :: bool
  transferManagerCreated :: bool
  network :: "request list"


subsection \<open>fileExists\<close>

text \<open>
  \<open>fileExists\<close> counts the probe, sends the HEAD request and classifies its outcome
  \<open>res\<close>: the three soft classifications give \<open>false\<close>, any other failure is thrown.
\<close>

definition fileExists ::
  "unit Outcome \<Rightarrow> S3BinaryCacheStoreImpl \<Rightarrow> string \<Rightarrow> (error + bool) \<times> S3BinaryCacheStoreImpl"
where
  "fileExists res st path =
     (let st1 = st\<lparr>stats := (stats st)\<lparr>head := head (stats st) + 1\<rparr>,
                   network := network st @ [HeadObject (bucketName st) path]\<rparr>
      in case res of
           Failure err msg \<Rightarrow>
             if err = RESOURCE_NOT_FOUND \<or> err = NO_SUCH_KEY \<or> err = ACCESS_DENIED
             then (Inr False, st1)
             else (Inl (Error (''AWS error fetching '' @ quoted path @ '': '' @ msg)), st1)
         | Success _ \<Rightarrow> (Inr True, st1))"

subsection \<open>uploadFile\<close>

text \<open>
  The stream handed to \<open>uploadFile\<close>: its bytes, and whether it is in a failed state
  (then \<open>tellg\<close> answers -1).
\<close>

record iostream =
  bytes :: string
  failbit :: bool

definition tellg_end :: "iostream \<Rightarrow> int" where
  "tellg_end s = (if failbit s then - 1 else int (length (bytes s)))"

text \<open>
  What the environment answers during one upload: the status of the transfer handle
  once \<open>WaitUntilFinished\<close> returns, the message of its last error, the outcome of the
  single PUT request, and the milliseconds measured between \<open>now1\<close> and \<open>now2\<close>.
\<close>

record upload_env =
  GetStatus :: TransferStatus
  GetLastError :: string
  PutObjectOutcome :: "unit Outcome"
  duration :: nat

text \<open>
  The \<open>call_once\<close> block: the first call on an instance creates the transfer manager
  when multi-part upload is configured; later calls do nothing.
\<close>

definition call_once_transferManager :: "S3BinaryCacheStoreImpl \<Rightarrow> S3BinaryCacheStoreImpl" where
  "call_once_transferManager st =
     (if transferManagerCreated st then st
      else (if multipartUpload st then st\<lparr>transferManager := True\<rparr> else st)
             \<lparr>transferManagerCreated := True\<rparr>)"

text \<open>The statistics recorded at the end of a successful upload.\<close>

definition record_put :: "int \<Rightarrow> nat \<Rightarrow> S3BinaryCacheStoreImpl \<Rightarrow> S3BinaryCacheStoreImpl" where
  "record_put stream_size ms st =
     st\<lparr>stats := (stats st)\<lparr>putTimeMs := putTimeMs (stats st) + ms,
                             putBytes := putBytes (stats st) + nat (max stream_size 0),
                             put := put (stats st) + 1\<rparr>\<rparr>"

definition uploadFile ::
  "upload_env \<Rightarrow> S3BinaryCacheStoreImpl \<Rightarrow> string \<Rightarrow> iostream \<Rightarrow> string \<Rightarrow> string
     \<Rightarrow> (error + unit) \<times> S3BinaryCacheStoreImpl"
where
  "uploadFile env st path istream mimeType contentEncoding =
     (let stream_size = tellg_end istream;
          st1 = call_once_transferManager st
      in if transferManager st1 then
           (if contentEncoding \<noteq> []
            then (Inl (Error ''setting a content encoding is not supported with S3 multi-part uploads''), st1)
            else
              let st2 = st1\<lparr>network := network st1 @ [UploadFile (bucketName st1) path mimeType]\<rparr>
              in if GetStatus env = FAILED
                 then (Inl (Error (''AWS error: failed to upload ''
                          @ quoted (''s3://'' @ bucketName st2 @ ''/'' @ path)
                          @ '': '' @ GetLastError env)), st2)
                 else if GetStatus env \<noteq> COMPLETED
                 then (Inl (Error (''AWS error: transfer status of ''
                          @ quoted (''s3://'' @ bucketName st2 @ ''/'' @ path)
                          @ '' in unexpected state'')), st2)
                 else (Inr (), record_put stream_size (duration env) st2))
         else
           (let st2 = st1\<lparr>network := network st1 @
                        [PutObject (bucketName st1) path mimeType
                           (if contentEncoding \<noteq> [] then Some contentEncoding else None)]\<rparr>
            in case checkAws (''AWS error uploading '' @ quoted path) (PutObjectOutcome env) of
                 Inl e \<Rightarrow> (Inl e, st2)
               | Inr _ \<Rightarrow> (Inr (), record_put stream_size (duration env) st2)))"

text \<open>
  The once-flag and the pointer agree with the configuration: before the first upload
  the flag is clear and the pointer null, afterwards the pointer is set exactly when
  multi-part upload is configured.
\<close>

definition store_ok :: "S3BinaryCacheStoreImpl \<Rightarrow> bool" where
  "store_ok st =
     (if transferManagerCreated st then transferManager st = multipartUpload st
      else \<not> transferManager st)"

text \<open>A freshly constructed store instance.\<close>

definition new_store :: "string \<Rightarrow> bool \<Rightarrow> S3BinaryCacheStoreImpl" where
  "new_store bucket multipart =
     \<lparr>bucketName = bucket,
      stats = \<lparr>put = 0, putBytes = 0, putTimeMs = 0, get = 0, getBytes = 0, getTimeMs = 0, head = 0\<rparr>,
      multipartUpload = multipart,
      bufferSize = 5 * 1024 * 1024,
      transferManager = False,
      transferManagerCreated = False,
      network = []\<rparr>"

subsection \<open>queryAllValidPaths\<close>

text \<open>
  Modelled from the spec: \<open>hasSuffix\<close> (util.hh, not among the sources) tests whether a
  key ends with the fixed metadata-object suffix.
\<close>

definition hasSuffix :: "string \<Rightarrow> string \<Rightarrow> bool" where
  "hasSuffix s suffix =
     (length suffix \<le> length s \<and> drop (length s - length suffix) s = suffix)"

text \<open>
  The loop over the keys of one page. \<open>storeDir\<close>, \<open>MissingName\<close> and
  \<open>parseStorePath\<close> are declared outside the sources and are arguments here;
  \<open>parseStorePath\<close> may throw, which ends the enumeration.
\<close>

fun scan_contents ::
  "string \<Rightarrow> string \<Rightarrow> (string \<Rightarrow> error + 'p) \<Rightarrow> string list \<Rightarrow> 'p set \<Rightarrow> error + 'p set"
where
  "scan_contents storeDir MissingName parseStorePath [] paths = Inr paths"
| "scan_contents storeDir MissingName parseStorePath (key # contents) paths =
     (if length key \<noteq> 40 \<or> \<not> hasSuffix key ''.narinfo''
      then scan_contents storeDir MissingName parseStorePath contents paths
      else
        case parseStorePath (storeDir @ ''/'' @ take (length key - 8) key @ ''-'' @ MissingName) of
          Inl e \<Rightarrow> Inl e
        | Inr p \<Rightarrow> scan_contents storeDir MissingName parseStorePath contents (insert p paths))"

text \<open>
  The do-while loop over the pages. \<open>ListObjects\<close> answers a marker with the keys of a
  page and the next marker. The listing ends when the service reports an empty marker;
  the loop is bounded by fuel, and \<open>None\<close> means the fuel ran out before that.
\<close>

fun queryAllValidPaths ::
  "nat \<Rightarrow> string \<Rightarrow> string \<Rightarrow> (string \<Rightarrow> error + 'p) \<Rightarrow> (string \<Rightarrow> (string list \<times> string) Outcome)
     \<Rightarrow> string \<Rightarrow> string \<Rightarrow> 'p set \<Rightarrow> (error + 'p set) option"
where
  "queryAllValidPaths 0 storeDir MissingName parseStorePath ListObjects bucket marker paths = None"
| "queryAllValidPaths (Suc fuel) storeDir MissingName parseStorePath ListObjects bucket marker paths =
     (case checkAws (''AWS error listing bucket '' @ quoted bucket) (ListObjects marker) of
        Inl e \<Rightarrow> Some (Inl e)
      | Inr (contents, next_marker) \<Rightarrow>
          (case scan_contents storeDir MissingName parseStorePath contents paths of
             Inl e \<Rightarrow> Some (Inl e)
           | Inr paths' \<Rightarrow>
               if next_marker \<noteq> []
               then queryAllValidPaths fuel storeDir MissingName parseStorePath ListObjects
                      bucket next_marker paths'
               else Some (Inr paths')))"

subsection \<open>The chunked downloader: S3Helper::getObject with a sink\<close>

text \<open>
  \<open>FileTransferResult\<close> (s3.hh).
\<close>

record FileTransferResult =
  data :: "string option"
  data_size :: "nat option"
  durationMs :: nat

text \<open>
  \<open>getObjectSize\<close>: the content length of a successful HEAD outcome; \<open>checkAws\<close>
  throws otherwise.
\<close>

definition getObjectSize :: "nat Outcome \<Rightarrow> string \<Rightarrow> error + nat" where
  "getObjectSize headOutcome key =
     checkAws (''AWS error checking object size '' @ quoted key) headOutcome"

definition chunk_size :: nat where
  "chunk_size = 32 * 1024 * 1024"

definition max_transfers :: nat where
  "max_transfers = 3"

definition max_chunks :: nat where
  "max_chunks = 5"

text \<open>
  The shared state of a chunk's promise and of the future taken from it: not yet
  satisfied, satisfied with the chunk (whose stream holds the bytes the transfer
  wrote), or holding an exception.
\<close>

datatype 'a promise = Pending | Value "'a list" | Exception error

text \<open>
  \<open>Chunk::complete\<close> is \<open>promise.set_value(shared_from_this())\<close>.
  \<open>shared_from_this\<close> answers a shared pointer to an object that a shared pointer
  already owns, and throws \<open>std::bad_weak_ptr\<close> otherwise. Every chunk is created by
  \<open>make_unique\<close> and owned by the \<open>unique_ptr\<close> of the map, so \<open>complete\<close> throws
  before \<open>set_value\<close> is reached. The chunk is given by its stream.
\<close>

datatype owner = unique_ptr | shared_ptr

definition shared_from_this :: "owner \<Rightarrow> 'c \<Rightarrow> error + 'c" where
  "shared_from_this owned_by chunk =
     (case owned_by of shared_ptr \<Rightarrow> Inr chunk | unique_ptr \<Rightarrow> Inl bad_weak_ptr)"

definition complete :: "'a list \<Rightarrow> error + 'a promise" where
  "complete chunk =
     (case shared_from_this unique_ptr chunk of
        Inl e \<Rightarrow> Inl e
      | Inr shared \<Rightarrow> Inr (Value shared))"

text \<open>
  Where the calling thread stands. \<open>AtGet\<close>: in the loop, about to take the lock and
  wait on the oldest future. \<open>AtPop\<close>: the chunk has been written to the sink, about to
  take the lock and pop it. \<open>Returned\<close>: the loop has ended and the result is returned.
  \<open>Thrown\<close>: the wait rethrew the exception stored in the promise and the call has been
  left. \<open>Blocked\<close>: the thread waits on a future that is not satisfied while it holds
  the mutex \<open>m\<close>; every callback needs \<open>m\<close> first, so no promise is satisfied any more
  and the call never returns. \<open>Crashed\<close>: a callback reported a terminal status for a
  handle that is not a key of \<open>transfers\<close>; the source dereferences the null pointer
  that \<open>transfers[handle.get()]\<close> inserts.
\<close>

datatype control = AtGet | AtPop | Returned | Thrown error | Blocked | Crashed

text \<open>
  The variables the lambdas capture, with the sink. A transfer handle is named by the
  number of the \<open>DownloadFile\<close> call that returned it. \<open>requested\<close> is the log of these
  calls (file offset and number of bytes asked for), \<open>promises\<close> the shared states of
  the chunks' promises, both indexed by handle. \<open>transfers\<close> holds the keys of the map
  of the same name, \<open>chunks\<close> the deque of futures (the future of the chunk of handle
  \<open>h\<close> is \<open>h\<close>), oldest first. \<open>sink\<close> lists the writes the sink has received.
\<close>

record 'a download =
  next_chunk_offset :: nat
  transfers :: "nat list"
  chunks :: "nat list"
  promises :: "'a promise list"
  requested :: "(nat \<times> nat) list"
  sink :: "'a list list"
  control :: control

text \<open>The test of the loop of \<open>start_downloads\<close>, and its body.\<close>

definition may_start :: "nat \<Rightarrow> 'a download \<Rightarrow> bool" where
  "may_start object_size s =
     (next_chunk_offset s < object_size \<and> length (transfers s) < max_transfers
        \<and> length (chunks s) < max_chunks)"

definition start_chunk :: "nat \<Rightarrow> 'a download \<Rightarrow> 'a download" where
  "start_chunk object_size s =
     (let download_size = min chunk_size (object_size - next_chunk_offset s);
          handle = length (requested s)
      in s\<lparr>requested := requested s @ [(next_chunk_offset s, chunk_size)],
           promises := promises s @ [Pending],
           next_chunk_offset := next_chunk_offset s + download_size,
           chunks := chunks s @ [handle],
           transfers := List.insert handle (transfers s)\<rparr>)"

function start_downloads :: "nat \<Rightarrow> 'a download \<Rightarrow> 'a download" where
  "start_downloads object_size s =
     (if may_start object_size s
      then start_downloads object_size (start_chunk object_size s)
      else s)"
  by pat_completeness auto
termination
  by (relation "measure (\<lambda>(object_size, s). object_size - next_chunk_offset s)")
     (auto simp: may_start_def start_chunk_def chunk_size_def Let_def)

declare start_downloads.simps [simp del]

text \<open>
  \<open>downloadProgressCallback\<close>, run under the lock for the handle and the status the
  transfer manager reports. \<open>body offset len\<close> is what the transfer wrote into the
  chunk's stream for the request of \<open>len\<close> bytes at \<open>offset\<close>. \<open>settle\<close> is what a
  terminal branch does once the promise has its state: the promise is satisfied or
  holds the exception, and the handle is erased from the map. In the \<open>COMPLETED\<close>
  branch \<open>complete\<close> throws: the exception leaves the callback, which unlocks the
  mutex, and goes to the transfer manager's thread; the promise stays unsatisfied, the
  handle stays in the map and \<open>start_downloads\<close> is not run.
\<close>

definition settle :: "nat \<Rightarrow> 'a promise \<Rightarrow> 'a download \<Rightarrow> 'a download" where
  "settle handle p s =
     s\<lparr>promises := (promises s)[handle := p], transfers := removeAll handle (transfers s)\<rparr>"

definition downloadProgressCallback ::
  "(nat \<Rightarrow> nat \<Rightarrow> 'a list) \<Rightarrow> nat \<Rightarrow> nat \<Rightarrow> TransferStatus \<Rightarrow> 'a download \<Rightarrow> 'a download"
where
  "downloadProgressCallback body object_size handle status s =
     (case status of
        NOT_STARTED \<Rightarrow> start_downloads object_size s
      | IN_PROGRESS \<Rightarrow> start_downloads object_size s
      | COMPLETED \<Rightarrow>
          if handle \<in> set (transfers s)
          then (case complete (body (fst (requested s ! handle)) (snd (requested s ! handle))) of
                  Inl e \<Rightarrow> s
                | Inr p \<Rightarrow> start_downloads object_size (settle handle p s))
          else s\<lparr>control := Crashed\<rparr>
      | _ \<Rightarrow>
          if handle \<in> set (transfers s)
          then start_downloads object_size
                 (settle handle (Exception (runtime_error ''Error from AWS'')) s)
          else s\<lparr>control := Crashed\<rparr>)"

text \<open>
  The test of the consumer's loop, read when the call enters the loop and after each
  pop. It is taken together with the locked region before it: a callback that runs in
  between cannot change its answer, since callbacks only append to the deque, and they
  append only for a transfer in flight or a cursor below the object size, which an
  empty deque after \<open>start_downloads\<close> excludes.
\<close>

definition loop_test :: "'a download \<Rightarrow> 'a download" where
  "loop_test s = s\<lparr>control := (if chunks s \<noteq> [] then AtGet else Returned)\<rparr>"

text \<open>
  The first half of the loop body: under the lock, wait on the oldest future; then
  write the chunk's stream to the sink. The loop test has seen a deque that is not
  empty, and only this thread pops.
\<close>

definition consumer_get :: "'a download \<Rightarrow> 'a download" where
  "consumer_get s =
     (case chunks s of
        [] \<Rightarrow> s
      | front # _ \<Rightarrow>
          (case promises s ! front of
             Pending \<Rightarrow> s\<lparr>control := Blocked\<rparr>
           | Exception e \<Rightarrow> s\<lparr>control := Thrown e\<rparr>
           | Value stream \<Rightarrow> s\<lparr>sink := sink s @ [stream], control := AtPop\<rparr>))"

text \<open>The second half: under the lock, pop the future and start downloads.\<close>

definition consumer_pop :: "nat \<Rightarrow> 'a download \<Rightarrow> 'a download" where
  "consumer_pop object_size s =
     loop_test (start_downloads object_size (s\<lparr>chunks := tl (chunks s)\<rparr>))"

text \<open>
  One step of the fetch: either the transfer manager runs the progress callback for a
  handle, or the calling thread runs its next locked region. Once the call has been
  left, or can no longer proceed, nothing changes.
\<close>

datatype event = Callback nat TransferStatus | Consumer

definition step ::
  "(nat \<Rightarrow> nat \<Rightarrow> 'a list) \<Rightarrow> nat \<Rightarrow> 'a download \<Rightarrow> event \<Rightarrow> 'a download"
where
  "step body object_size s ev =
     (case control s of
        AtGet \<Rightarrow>
          (case ev of
             Consumer \<Rightarrow> consumer_get s
           | Callback handle status \<Rightarrow> downloadProgressCallback body object_size handle status s)
      | AtPop \<Rightarrow>
          (case ev of
             Consumer \<Rightarrow> consumer_pop object_size s
           | Callback handle status \<Rightarrow> downloadProgressCallback body object_size handle status s)
      | _ \<Rightarrow> s)"

definition idle :: "'a download" where
  "idle = \<lparr>next_chunk_offset = 0, transfers = [], chunks = [], promises = [],
           requested = [], sink = [], control = AtGet\<rparr>"

text \<open>
  The state in which the call enters the consumer's loop: the first
  \<open>start_downloads\<close> has run under the lock.
\<close>

definition enter_loop :: "nat \<Rightarrow> 'a download" where
  "enter_loop object_size = loop_test (start_downloads object_size idle)"

text \<open>The fetch of an object of the given size along a schedule of events.\<close>

definition fetch ::
  "(nat \<Rightarrow> nat \<Rightarrow> 'a list) \<Rightarrow> nat \<Rightarrow> event list \<Rightarrow> 'a download"
where
  "fetch body object_size evs = foldl (step body object_size) (enter_loop object_size) evs"

text \<open>
  \<open>getObject\<close> with a sink. \<open>headOutcome\<close> is the answer to the HEAD request of
  \<open>getObjectSize\<close>, \<open>evs\<close> the schedule, \<open>ms\<close> the time measured between \<open>now1\<close> and
  \<open>now2\<close>. The first component is the value returned or the exception thrown, or
  \<open>None\<close> when the call has not returned along the schedule; the second is the state
  of the download, with the writes the sink has received.
\<close>

definition getObject ::
  "(nat \<Rightarrow> nat \<Rightarrow> 'a list) \<Rightarrow> nat Outcome \<Rightarrow> event list \<Rightarrow> nat \<Rightarrow> string
     \<Rightarrow> (error + FileTransferResult) option \<times> 'a download"
where
  "getObject body headOutcome evs ms key =
     (case getObjectSize headOutcome key of
        Inl e \<Rightarrow> (Some (Inl e), idle\<lparr>control := Thrown e\<rparr>)
      | Inr object_size \<Rightarrow>
          (let s = fetch body object_size evs
           in (case control s of
                 Returned \<Rightarrow> Some (Inr \<lparr>data = None, data_size = Some object_size, durationMs = ms\<rparr>)
               | Thrown e \<Rightarrow> Some (Inl e)
               | _ \<Rightarrow> None,
               s)))"

text \<open>
  A transport that serves an object: it answers a range request with the bytes of the
  object from the offset on, as many as were asked for, or fewer where the object ends
  (the answer to an HTTP range that reaches past the end).
\<close>

definition range_read :: "'a list \<Rightarrow> nat \<Rightarrow> nat \<Rightarrow> 'a list" where
  "range_read object offset len = take len (drop offset object)"

subsection \<open>getFile\<close>


subsection \<open>The invariants of the chunked downloader\<close>

text \<open>
  The log of requests: request \<open>h\<close> asks for \<open>chunk_size\<close> bytes at offset
  \<open>h * chunk_size\<close>, which lies inside the object; every request has its promise; the
  cursor is the end of the last window, cut at the object size.
\<close>

definition log_ok :: "nat \<Rightarrow> 'a download \<Rightarrow> bool" where
  "log_ok object_size s =
     (requested s = map (\<lambda>h. (h * chunk_size, chunk_size)) [0..<length (requested s)]
    \<and> length (promises s) = length (requested s)
    \<and> next_chunk_offset s = min (length (requested s) * chunk_size) object_size
    \<and> (requested s \<noteq> [] \<longrightarrow> (length (requested s) - 1) * chunk_size < object_size))"

text \<open>The map and the deque respect their limits.\<close>

definition limits_ok :: "'a download \<Rightarrow> bool" where
  "limits_ok s = (length (transfers s) \<le> max_transfers \<and> length (chunks s) \<le> max_chunks)"

text \<open>
  No promise is satisfied: the sink has received nothing, the consumer never stands
  after a write, every queued future has its promise, no promise holds a chunk, and the
  only exception a promise holds or the call has thrown is the one of the callback.
\<close>

definition unsatisfied :: "'a download \<Rightarrow> bool" where
  "unsatisfied s =
     (sink s = [] \<and> control s \<noteq> AtPop
    \<and> (\<forall>h\<in>set (chunks s). h < length (promises s))
    \<and> length (requested s) = length (promises s)
    \<and> (\<forall>h<length (promises s). \<forall>v. promises s ! h \<noteq> Value v)
    \<and> (\<forall>h<length (promises s). \<forall>e. promises s ! h = Exception e
           \<longrightarrow> e = runtime_error ''Error from AWS'')
    \<and> (\<forall>e. control s = Thrown e \<longrightarrow> e = runtime_error ''Error from AWS''))"

text \<open>
  The chunks that are buffered and not yet delivered: the queued handles whose promise
  holds a chunk.
\<close>

definition buffered :: "'a download \<Rightarrow> nat list" where
  "buffered s = filter (\<lambda>h. case promises s ! h of Value _ \<Rightarrow> True | _ \<Rightarrow> False) (chunks s)"

section \<open>Properties\<close>

subsection \<open>The store instance stays consistent\<close>

lemma store_ok_new: "store_ok (new_store bucket multipart)"
  by (simp add: store_ok_def new_store_def)

lemma store_ok_call_once: "store_ok st \<Longrightarrow> store_ok (call_once_transferManager st)"
  by (simp add: store_ok_def call_once_transferManager_def)

lemma transferManager_call_once:
  "store_ok st \<Longrightarrow> transferManager (call_once_transferManager st) = multipartUpload st"
  by (simp add: store_ok_def call_once_transferManager_def)

lemma store_ok_uploadFile:
  "store_ok st \<Longrightarrow> store_ok (snd (uploadFile env st path istream mimeType contentEncoding))"
  by (auto simp: uploadFile_def Let_def store_ok_def call_once_transferManager_def record_put_def
           split: sum.splits)

lemma store_ok_fileExists: "store_ok st \<Longrightarrow> store_ok (snd (fileExists res st path))"
  by (auto simp: fileExists_def Let_def store_ok_def split: Outcome.splits)

text \<open>
  C6. \<open>fileExists\<close> answers \<open>false\<close> exactly when the HEAD request fails with a
  not-found classification (\<open>RESOURCE_NOT_FOUND\<close>, \<open>NO_SUCH_KEY\<close>) or with
  \<open>ACCESS_DENIED\<close>; a failure of any other classification is thrown as an \<open>Error\<close>
  that carries the transport's message, never reported as \<open>false\<close>; a successful
  probe answers \<open>true\<close>.
\<close>

theorem fileExists_classification:
  "(fst (fileExists res st path) = Inr False) =
     (\<exists>err msg. res = Failure err msg \<and> err \<in> {RESOURCE_NOT_FOUND, NO_SUCH_KEY, ACCESS_DENIED})
   \<and> (\<forall>err msg. res = Failure err msg \<and> err \<notin> {RESOURCE_NOT_FOUND, NO_SUCH_KEY, ACCESS_DENIED}
        \<longrightarrow> fst (fileExists res st path)
              = Inl (Error (''AWS error fetching '' @ quoted path @ '': '' @ msg)))
   \<and> (\<forall>r. res = Success r \<longrightarrow> fst (fileExists res st path) = Inr True)"
  by (cases res) (auto simp: fileExists_def Let_def)

theorem fileExists_classification_witness:
  "fst (fileExists (Failure ACCESS_DENIED ''Forbidden'') (new_store ''cache'' False) ''a.narinfo'') = Inr False
   \<and> fst (fileExists (Failure NO_SUCH_KEY ''Not Found'') (new_store ''cache'' False) ''a.narinfo'') = Inr False
   \<and> fst (fileExists (Failure NETWORK_CONNECTION ''timeout'') (new_store ''cache'' False) ''a.narinfo'')
       = Inl (Error (''AWS error fetching '' @ quoted ''a.narinfo'' @ '': timeout''))
   \<and> fst (fileExists (Success ()) (new_store ''cache'' False) ''a.narinfo'') = Inr True"
  using fileExists_classification [of "Failure ACCESS_DENIED ''Forbidden''" "new_store ''cache'' False" "''a.narinfo''"]
        fileExists_classification [of "Failure NO_SUCH_KEY ''Not Found''" "new_store ''cache'' False" "''a.narinfo''"]
        fileExists_classification [of "Failure NETWORK_CONNECTION ''timeout''" "new_store ''cache'' False" "''a.narinfo''"]
        fileExists_classification [of "Success ()" "new_store ''cache'' False" "''a.narinfo''"]
  by simp

text \<open>
  C7. With multi-part upload configured and a non-empty content encoding,
  \<open>uploadFile\<close> throws the configuration error at once: no request has been added
  to the network log and no statistic has been recorded.
\<close>

theorem uploadFile_multipart_content_encoding:
  assumes "store_ok st" and "multipartUpload st" and "contentEncoding \<noteq> []"
  shows "fst (uploadFile env st path istream mimeType contentEncoding)
           = Inl (Error ''setting a content encoding is not supported with S3 multi-part uploads'')
         \<and> network (snd (uploadFile env st path istream mimeType contentEncoding)) = network st
         \<and> stats (snd (uploadFile env st path istream mimeType contentEncoding)) = stats st"
  using assms
  by (auto simp: uploadFile_def Let_def store_ok_def call_once_transferManager_def)

theorem uploadFile_multipart_content_encoding_witness:
  "store_ok (new_store ''cache'' True) \<and> multipartUpload (new_store ''cache'' True) \<and> ''xz'' \<noteq> []
   \<and> fst (uploadFile \<lparr>GetStatus = COMPLETED, GetLastError = [], PutObjectOutcome = Success (), duration = 7\<rparr>
            (new_store ''cache'' True) ''a.narinfo'' \<lparr>bytes = ''StorePath: a'', failbit = False\<rparr>
            ''text/x-nix-narinfo'' ''xz'')
       = Inl (Error ''setting a content encoding is not supported with S3 multi-part uploads'')
   \<and> network (snd (uploadFile \<lparr>GetStatus = COMPLETED, GetLastError = [], PutObjectOutcome = Success (), duration = 7\<rparr>
            (new_store ''cache'' True) ''a.narinfo'' \<lparr>bytes = ''StorePath: a'', failbit = False\<rparr>
            ''text/x-nix-narinfo'' ''xz'')) = []"
proof -
  have ok: "store_ok (new_store ''cache'' True)" by (simp add: store_ok_def new_store_def)
  have mp: "multipartUpload (new_store ''cache'' True)" by (simp add: new_store_def)
  have ce: "''xz'' \<noteq> []" by simp
  have nw: "network (new_store ''cache'' True) = []" by (simp add: new_store_def)
  show ?thesis
    using ok mp ce nw uploadFile_multipart_content_encoding [OF ok mp ce] by simp
qed

text \<open>
  C9. A multi-part upload whose handle has finished distinguishes three outcomes:
  \<open>COMPLETED\<close> is success, \<open>FAILED\<close> throws an \<open>Error\<close> that ends with the message
  of the handle's last error, and every other status throws the unexpected-state
  \<open>Error\<close>.
\<close>

theorem uploadFile_multipart_terminal_status:
  assumes "store_ok st" and "multipartUpload st"
  shows "(GetStatus env = COMPLETED \<longrightarrow>
            fst (uploadFile env st path istream mimeType []) = Inr ())
       \<and> (GetStatus env = FAILED \<longrightarrow>
            fst (uploadFile env st path istream mimeType [])
              = Inl (Error (''AWS error: failed to upload ''
                            @ quoted (''s3://'' @ bucketName st @ ''/'' @ path)
                            @ '': '' @ GetLastError env)))
       \<and> (GetStatus env \<noteq> COMPLETED \<and> GetStatus env \<noteq> FAILED \<longrightarrow>
            fst (uploadFile env st path istream mimeType [])
              = Inl (Error (''AWS error: transfer status of ''
                            @ quoted (''s3://'' @ bucketName st @ ''/'' @ path)
                            @ '' in unexpected state'')))"
  using assms
  by (auto simp: uploadFile_def Let_def store_ok_def call_once_transferManager_def)

theorem uploadFile_multipart_terminal_status_witness:
  "fst (uploadFile \<lparr>GetStatus = COMPLETED, GetLastError = [], PutObjectOutcome = Success (), duration = 7\<rparr>
          (new_store ''cache'' True) ''nar/a.nar'' \<lparr>bytes = ''abc'', failbit = False\<rparr> ''application/x-nix-nar'' [])
     = Inr ()
   \<and> fst (uploadFile \<lparr>GetStatus = FAILED, GetLastError = ''broken pipe'', PutObjectOutcome = Success (), duration = 7\<rparr>
          (new_store ''cache'' True) ''nar/a.nar'' \<lparr>bytes = ''abc'', failbit = False\<rparr> ''application/x-nix-nar'' [])
     = Inl (Error (''AWS error: failed to upload '' @ quoted ''s3://cache/nar/a.nar'' @ '': broken pipe''))
   \<and> fst (uploadFile \<lparr>GetStatus = CANCELED, GetLastError = [], PutObjectOutcome = Success (), duration = 7\<rparr>
          (new_store ''cache'' True) ''nar/a.nar'' \<lparr>bytes = ''abc'', failbit = False\<rparr> ''application/x-nix-nar'' [])
     = Inl (Error (''AWS error: transfer status of '' @ quoted ''s3://cache/nar/a.nar'' @ '' in unexpected state''))"
proof -
  have ok: "store_ok (new_store ''cache'' True)" by (simp add: store_ok_def new_store_def)
  have mp: "multipartUpload (new_store ''cache'' True)" by (simp add: new_store_def)
  have bn: "bucketName (new_store ''cache'' True) = ''cache''" by (simp add: new_store_def)
  show ?thesis
    using uploadFile_multipart_terminal_status [OF ok mp,
            of "\<lparr>GetStatus = COMPLETED, GetLastError = [], PutObjectOutcome = Success (), duration = 7\<rparr>"]
          uploadFile_multipart_terminal_status [OF ok mp,
            of "\<lparr>GetStatus = FAILED, GetLastError = ''broken pipe'', PutObjectOutcome = Success (), duration = 7\<rparr>"]
          uploadFile_multipart_terminal_status [OF ok mp,
            of "\<lparr>GetStatus = CANCELED, GetLastError = [], PutObjectOutcome = Success (), duration = 7\<rparr>"]
    by (simp add: bn)
qed

subsection \<open>Keys of a listing page\<close>

lemma qualifies_iff:
  "(length key = 40 \<and> hasSuffix key ''.narinfo'') = (\<exists>h. key = h @ ''.narinfo'' \<and> length h = 32)"
proof
  assume a: "length key = 40 \<and> hasSuffix key ''.narinfo''"
  then have d: "drop (length key - length ''.narinfo'') key = ''.narinfo''"
    unfolding hasSuffix_def by blast
  have "length key - length ''.narinfo'' = 32" using a by simp
  with d have "drop 32 key = ''.narinfo''" by (simp only:)
  then have "key = take 32 key @ ''.narinfo''" by (metis append_take_drop_id)
  moreover have "length (take 32 key) = 32" using a by simp
  ultimately show "\<exists>h. key = h @ ''.narinfo'' \<and> length h = 32" by blast
next
  assume "\<exists>h. key = h @ ''.narinfo'' \<and> length h = 32"
  then show "length key = 40 \<and> hasSuffix key ''.narinfo''"
    by (auto simp: hasSuffix_def)
qed

lemma scan_contents_skip:
  "\<not> (length key = 40 \<and> hasSuffix key ''.narinfo'') \<Longrightarrow>
   scan_contents storeDir MissingName parseStorePath (key # contents) paths
     = scan_contents storeDir MissingName parseStorePath contents paths"
  by auto

lemma scan_contents_qualifying:
  assumes "length h = 32"
  shows "scan_contents storeDir MissingName parseStorePath ((h @ ''.narinfo'') # contents) paths =
           (case parseStorePath (storeDir @ ''/'' @ h @ ''-'' @ MissingName) of
              Inl e \<Rightarrow> Inl e
            | Inr p \<Rightarrow> scan_contents storeDir MissingName parseStorePath contents (insert p paths))"
proof -
  have q: "length (h @ ''.narinfo'') = 40 \<and> hasSuffix (h @ ''.narinfo'') ''.narinfo''"
    using assms qualifies_iff by blast
  have t: "take (length (h @ ''.narinfo'') - 8) (h @ ''.narinfo'') = h" using assms by simp
  show ?thesis using q by (simp only: scan_contents.simps t) simp
qed

lemma scan_contents_filter:
  "scan_contents storeDir MissingName parseStorePath contents paths =
   scan_contents storeDir MissingName parseStorePath
     (filter (\<lambda>key. length key = 40 \<and> hasSuffix key ''.narinfo'') contents) paths"
proof (induction contents arbitrary: paths)
  case Nil
  then show ?case by simp
next
  case (Cons key contents)
  show ?case
  proof (cases "length key = 40 \<and> hasSuffix key ''.narinfo''")
    case True
    then show ?thesis using Cons by (auto split: sum.splits)
  next
    case False
    then show ?thesis using Cons by auto
  qed
qed

lemma scan_contents_accepted:
  assumes "\<forall>key\<in>set contents. length key = 40 \<and> hasSuffix key ''.narinfo'' \<longrightarrow>
             (\<exists>p. parseStorePath (storeDir @ ''/'' @ take 32 key @ ''-'' @ MissingName) = Inr p)"
  shows "scan_contents storeDir MissingName parseStorePath contents paths =
           Inr (paths \<union> {p. \<exists>h. h @ ''.narinfo'' \<in> set contents \<and> length h = 32 \<and>
                              parseStorePath (storeDir @ ''/'' @ h @ ''-'' @ MissingName) = Inr p})"
  using assms
proof (induction contents arbitrary: paths)
  case Nil
  then show ?case by simp
next
  case (Cons key contents)
  let ?dec = "\<lambda>c. {p. \<exists>h. h @ ''.narinfo'' \<in> set c \<and> length h = 32 \<and>
                       parseStorePath (storeDir @ ''/'' @ h @ ''-'' @ MissingName) = Inr p}"
  have IH: "\<And>ps. scan_contents storeDir MissingName parseStorePath contents ps = Inr (ps \<union> ?dec contents)"
    using Cons by simp
  show ?case
  proof (cases "length key = 40 \<and> hasSuffix key ''.narinfo''")
    case False
    then have "\<not> (\<exists>h. key = h @ ''.narinfo'' \<and> length h = 32)"
      using qualifies_iff by blast
    then have "?dec (key # contents) = ?dec contents" by auto
    with False IH show ?thesis by auto
  next
    case True
    then obtain p where p: "parseStorePath (storeDir @ ''/'' @ take 32 key @ ''-'' @ MissingName) = Inr p"
      using Cons.prems by auto
    from True obtain h where h: "key = h @ ''.narinfo''" "length h = 32"
      using qualifies_iff by blast
    then have t: "take 32 key = h" by simp
    have "?dec (key # contents) = insert p (?dec contents)"
      using h p t by auto
    moreover have "scan_contents storeDir MissingName parseStorePath (key # contents) paths
                 = scan_contents storeDir MissingName parseStorePath contents (insert p paths)"
      using True p by simp
    ultimately show ?thesis using IH by simp
  qed
qed

lemma scan_contents_rejected:
  assumes "length h = 32"
    and "parseStorePath (storeDir @ ''/'' @ h @ ''-'' @ MissingName) = Inl e"
    and "\<forall>key\<in>set before. length key = 40 \<and> hasSuffix key ''.narinfo'' \<longrightarrow>
           (\<exists>p. parseStorePath (storeDir @ ''/'' @ take 32 key @ ''-'' @ MissingName) = Inr p)"
  shows "scan_contents storeDir MissingName parseStorePath (before @ (h @ ''.narinfo'') # after) paths
           = Inl e"
  using assms(3)
proof (induction before arbitrary: paths)
  case Nil
  have "scan_contents storeDir MissingName parseStorePath ((h @ ''.narinfo'') # after) paths =
           (case parseStorePath (storeDir @ ''/'' @ h @ ''-'' @ MissingName) of
              Inl e \<Rightarrow> Inl e
            | Inr p \<Rightarrow> scan_contents storeDir MissingName parseStorePath after (insert p paths))"
    using assms(1) by (rule scan_contents_qualifying)
  also have "\<dots> = Inl e" by (simp only: assms(2) sum.case)
  finally show ?case by (simp only: append_Nil)
next
  case (Cons key before)
  then have IH: "\<And>ps. scan_contents storeDir MissingName parseStorePath
                          (before @ (h @ ''.narinfo'') # after) ps = Inl e"
    by simp
  show ?case
  proof (cases "length key = 40 \<and> hasSuffix key ''.narinfo''")
    case False
    then show ?thesis using IH by auto
  next
    case True
    then obtain p where "parseStorePath (storeDir @ ''/'' @ take 32 key @ ''-'' @ MissingName) = Inr p"
      using Cons.prems by auto
    with True show ?thesis using IH by simp
  qed
qed

text \<open>
  C5, as the code has it. A key qualifies exactly when it is 40 characters long in all
  and ends with \<open>.narinfo\<close>, that is, when it is a hash component of 32 characters
  followed by the suffix. Every key that does not qualify is skipped: the page gives
  what its qualifying keys give. A qualifying key is decoded by stripping the suffix
  and joining the store directory, the 32-character hash component and the placeholder
  name, and the decoded path is given to \<open>parseStorePath\<close>. When \<open>parseStorePath\<close>
  accepts every decoded path of the page, the result holds the parsed paths of exactly
  the qualifying keys; the first decoded path it rejects ends the enumeration with its
  exception.
\<close>

theorem scan_contents_decodes:
  "scan_contents storeDir MissingName parseStorePath contents paths
     = scan_contents storeDir MissingName parseStorePath
         (filter (\<lambda>key. length key = 40 \<and> hasSuffix key ''.narinfo'') contents) paths
   \<and> (\<forall>key. (length key = 40 \<and> hasSuffix key ''.narinfo'')
              = (\<exists>h. key = h @ ''.narinfo'' \<and> length h = 32))
   \<and> (\<forall>h rest. length h = 32 \<longrightarrow>
         scan_contents storeDir MissingName parseStorePath ((h @ ''.narinfo'') # rest) paths =
           (case parseStorePath (storeDir @ ''/'' @ h @ ''-'' @ MissingName) of
              Inl e \<Rightarrow> Inl e
            | Inr p \<Rightarrow> scan_contents storeDir MissingName parseStorePath rest (insert p paths)))
   \<and> ((\<forall>key\<in>set contents. length key = 40 \<and> hasSuffix key ''.narinfo'' \<longrightarrow>
          (\<exists>p. parseStorePath (storeDir @ ''/'' @ take 32 key @ ''-'' @ MissingName) = Inr p))
        \<longrightarrow> scan_contents storeDir MissingName parseStorePath contents paths =
              Inr (paths \<union> {p. \<exists>h. h @ ''.narinfo'' \<in> set contents \<and> length h = 32 \<and>
                              parseStorePath (storeDir @ ''/'' @ h @ ''-'' @ MissingName) = Inr p}))
   \<and> (\<forall>before h after e.
         contents = before @ (h @ ''.narinfo'') # after \<and> length h = 32
         \<and> parseStorePath (storeDir @ ''/'' @ h @ ''-'' @ MissingName) = Inl e
         \<and> (\<forall>key\<in>set before. length key = 40 \<and> hasSuffix key ''.narinfo'' \<longrightarrow>
               (\<exists>p. parseStorePath (storeDir @ ''/'' @ take 32 key @ ''-'' @ MissingName) = Inr p))
         \<longrightarrow> scan_contents storeDir MissingName parseStorePath contents paths = Inl e)"
proof (intro conjI allI impI)
  show "scan_contents storeDir MissingName parseStorePath contents paths
     = scan_contents storeDir MissingName parseStorePath
         (filter (\<lambda>key. length key = 40 \<and> hasSuffix key ''.narinfo'') contents) paths"
    by (rule scan_contents_filter)
next
  fix key
  show "(length key = 40 \<and> hasSuffix key ''.narinfo'')
              = (\<exists>h. key = h @ ''.narinfo'' \<and> length h = 32)"
    by (rule qualifies_iff)
next
  fix h :: string and rest
  assume "length h = 32"
  then show "scan_contents storeDir MissingName parseStorePath ((h @ ''.narinfo'') # rest) paths =
           (case parseStorePath (storeDir @ ''/'' @ h @ ''-'' @ MissingName) of
              Inl e \<Rightarrow> Inl e
            | Inr p \<Rightarrow> scan_contents storeDir MissingName parseStorePath rest (insert p paths))"
    by (rule scan_contents_qualifying)
next
  assume "\<forall>key\<in>set contents. length key = 40 \<and> hasSuffix key ''.narinfo'' \<longrightarrow>
          (\<exists>p. parseStorePath (storeDir @ ''/'' @ take 32 key @ ''-'' @ MissingName) = Inr p)"
  then show "scan_contents storeDir MissingName parseStorePath contents paths =
              Inr (paths \<union> {p. \<exists>h. h @ ''.narinfo'' \<in> set contents \<and> length h = 32 \<and>
                              parseStorePath (storeDir @ ''/'' @ h @ ''-'' @ MissingName) = Inr p})"
    by (rule scan_contents_accepted)
next
  fix before after :: "string list" and h :: string and e
  assume a: "contents = before @ (h @ ''.narinfo'') # after \<and> length h = 32
         \<and> parseStorePath (storeDir @ ''/'' @ h @ ''-'' @ MissingName) = Inl e
         \<and> (\<forall>key\<in>set before. length key = 40 \<and> hasSuffix key ''.narinfo'' \<longrightarrow>
               (\<exists>p. parseStorePath (storeDir @ ''/'' @ take 32 key @ ''-'' @ MissingName) = Inr p))"
  then have c: "contents = before @ (h @ ''.narinfo'') # after" and l: "length h = 32"
    and r: "parseStorePath (storeDir @ ''/'' @ h @ ''-'' @ MissingName) = Inl e"
    and b: "\<forall>key\<in>set before. length key = 40 \<and> hasSuffix key ''.narinfo'' \<longrightarrow>
               (\<exists>p. parseStorePath (storeDir @ ''/'' @ take 32 key @ ''-'' @ MissingName) = Inr p)"
    by blast+
  show "scan_contents storeDir MissingName parseStorePath contents paths = Inl e"
    unfolding c using l r b by (rule scan_contents_rejected)
qed

text \<open>
  C5, as the specification words it, asks for 40 characters plus the suffix. A key with a
  32-character hash component (40 characters in all) is decoded although its length
  is not 48, and a key of 40 characters plus the suffix is skipped.
\<close>

theorem scan_contents_length_counterexample:
  "length ''7h7qgvs4kgzsn8a6rb273saxyqh4jxlz.narinfo'' \<noteq> 40 + length ''.narinfo''
   \<and> scan_contents ''/nix/store'' ''x'' Inr [''7h7qgvs4kgzsn8a6rb273saxyqh4jxlz.narinfo''] {}
       = Inr {''/nix/store/7h7qgvs4kgzsn8a6rb273saxyqh4jxlz-x''}
   \<and> length ''0123456789abcdef0123456789abcdef01234567.narinfo'' = 40 + length ''.narinfo''
   \<and> scan_contents ''/nix/store'' ''x'' Inr [''0123456789abcdef0123456789abcdef01234567.narinfo''] {}
       = Inr ({} :: string set)"
  by (simp add: hasSuffix_def)

theorem scan_contents_decodes_witness:
  "scan_contents ''/nix/store'' ''x'' Inr
        [''7h7qgvs4kgzsn8a6rb273saxyqh4jxlz.narinfo'', ''nar'', ''nix-cache-info''] {}
      = Inr ({} \<union> {p. \<exists>h. h @ ''.narinfo'' \<in> set [''7h7qgvs4kgzsn8a6rb273saxyqh4jxlz.narinfo'', ''nar'', ''nix-cache-info'']
                         \<and> length h = 32 \<and> (Inr (''/nix/store'' @ ''/'' @ h @ ''-'' @ ''x'') :: error + string) = Inr p})
   \<and> scan_contents ''/nix/store'' ''x'' Inr
        [''7h7qgvs4kgzsn8a6rb273saxyqh4jxlz.narinfo'', ''nar'', ''nix-cache-info''] {}
      = Inr {''/nix/store/7h7qgvs4kgzsn8a6rb273saxyqh4jxlz-x''}
   \<and> scan_contents ''/nix/store'' ''x'' (\<lambda>path. Inl (Error ''bad store path'') :: error + string)
        ([''nar''] @ (''7h7qgvs4kgzsn8a6rb273saxyqh4jxlz'' @ ''.narinfo'') # [''nix-cache-info'']) {}
      = Inl (Error ''bad store path'')"
proof -
  have h: "\<forall>key\<in>set [''7h7qgvs4kgzsn8a6rb273saxyqh4jxlz.narinfo'', ''nar'', ''nix-cache-info''].
       length key = 40 \<and> hasSuffix key ''.narinfo'' \<longrightarrow>
       (\<exists>p. (Inr (''/nix/store'' @ ''/'' @ take 32 key @ ''-'' @ ''x'') :: error + string) = Inr p)"
    by simp
  have e: "scan_contents ''/nix/store'' ''x'' Inr
        [''7h7qgvs4kgzsn8a6rb273saxyqh4jxlz.narinfo'', ''nar'', ''nix-cache-info''] {}
      = Inr {''/nix/store/7h7qgvs4kgzsn8a6rb273saxyqh4jxlz-x''}"
    by (simp add: hasSuffix_def)
  have a: "scan_contents ''/nix/store'' ''x'' Inr
        [''7h7qgvs4kgzsn8a6rb273saxyqh4jxlz.narinfo'', ''nar'', ''nix-cache-info''] {}
      = Inr ({} \<union> {p. \<exists>h. h @ ''.narinfo'' \<in> set [''7h7qgvs4kgzsn8a6rb273saxyqh4jxlz.narinfo'', ''nar'', ''nix-cache-info'']
                         \<and> length h = 32 \<and> (Inr (''/nix/store'' @ ''/'' @ h @ ''-'' @ ''x'') :: error + string) = Inr p})"
    using h scan_contents_decodes [of "''/nix/store''" "''x''" Inr
            "[''7h7qgvs4kgzsn8a6rb273saxyqh4jxlz.narinfo'', ''nar'', ''nix-cache-info'']" "{}"]
    by blast
  have l: "length ''7h7qgvs4kgzsn8a6rb273saxyqh4jxlz'' = 32" by simp
  have r: "\<forall>key\<in>set [''nar'']. length key = 40 \<and> hasSuffix key ''.narinfo'' \<longrightarrow>
       (\<exists>p. (Inl (Error ''bad store path'') :: error + string) = Inr p)"
    by simp
  have b: "scan_contents ''/nix/store'' ''x'' (\<lambda>path. Inl (Error ''bad store path'') :: error + string)
        ([''nar''] @ (''7h7qgvs4kgzsn8a6rb273saxyqh4jxlz'' @ ''.narinfo'') # [''nix-cache-info'']) {}
      = Inl (Error ''bad store path'')"
    using l r scan_contents_decodes [of "''/nix/store''" "''x''"
            "\<lambda>path. Inl (Error ''bad store path'') :: error + string"
            "[''nar''] @ (''7h7qgvs4kgzsn8a6rb273saxyqh4jxlz'' @ ''.narinfo'') # [''nix-cache-info'']" "{}"]
    by blast
  from a e b show ?thesis by blast
qed

subsection \<open>The scheduling loop and the callback\<close>

lemma chunk_size_pos: "0 < chunk_size"
  by (simp add: chunk_size_def)

text \<open>\<open>Chunk::complete\<close> throws for every chunk.\<close>

lemma complete_throws [simp]: "complete chunk = Inl bad_weak_ptr"
  by (simp add: complete_def shared_from_this_def)

text \<open>
  What holds before \<open>start_downloads\<close> and is kept by each round of its loop holds
  after it.
\<close>

lemma start_downloads_rule:
  assumes "P s" and "\<And>t. P t \<Longrightarrow> may_start object_size t \<Longrightarrow> P (start_chunk object_size t)"
  shows "P (start_downloads object_size s)"
  using assms
proof (induction object_size s rule: start_downloads.induct)
  case (1 object_size s)
  show ?case
  proof (cases "may_start object_size s")
    case True
    then have "P (start_chunk object_size s)" using 1 by blast
    then have "P (start_downloads object_size (start_chunk object_size s))"
      using 1 True by blast
    then show ?thesis using True by (simp add: start_downloads.simps [of object_size s])
  next
    case False
    then show ?thesis using 1 by (simp add: start_downloads.simps [of object_size s])
  qed
qed

lemma control_start_downloads [simp]: "control (start_downloads object_size s) = control s"
  by (rule start_downloads_rule) (auto simp: start_chunk_def Let_def)

lemma sink_start_downloads [simp]: "sink (start_downloads object_size s) = sink s"
  by (rule start_downloads_rule) (auto simp: start_chunk_def Let_def)

lemma chunks_start_downloads: "chunks s \<noteq> [] \<Longrightarrow> chunks (start_downloads object_size s) \<noteq> []"
  by (rule start_downloads_rule) (auto simp: start_chunk_def Let_def)

text \<open>
  The four ways the callback can end: only \<open>start_downloads\<close> has run; \<open>complete\<close>
  has thrown and the state is as before; the promise holds the exception and
  \<open>start_downloads\<close> has run; the handle was not in the map.
\<close>

lemma callback_cases:
  assumes "P (start_downloads object_size s)"
    and "handle \<in> set (transfers s) \<Longrightarrow> P s"
    and "handle \<in> set (transfers s) \<Longrightarrow>
           P (start_downloads object_size
                (settle handle (Exception (runtime_error ''Error from AWS'')) s))"
    and "P (s\<lparr>control := Crashed\<rparr>)"
  shows "P (downloadProgressCallback body object_size handle status s)"
  using assms by (cases status) (simp_all add: downloadProgressCallback_def)

subsection \<open>The log of requests\<close>

lemma log_ok_start_chunk:
  assumes "log_ok object_size s" and "may_start object_size s"
  shows "log_ok object_size (start_chunk object_size s)"
proof -
  let ?n = "length (requested s)"
  from assms have lt: "next_chunk_offset s < object_size" by (simp add: may_start_def)
  from assms have cur: "next_chunk_offset s = min (?n * chunk_size) object_size"
    by (simp add: log_ok_def)
  with lt have off: "next_chunk_offset s = ?n * chunk_size" and below: "?n * chunk_size < object_size"
    by auto
  from assms have req: "requested s = map (\<lambda>h. (h * chunk_size, chunk_size)) [0..<?n]"
    by (simp add: log_ok_def)
  have "requested s @ [(?n * chunk_size, chunk_size)]
          = map (\<lambda>h. (h * chunk_size, chunk_size)) [0..<Suc ?n]"
    using req by simp
  moreover have "?n * chunk_size + min chunk_size (object_size - ?n * chunk_size)
                   = min (Suc ?n * chunk_size) object_size"
  proof -
    have "\<And>a. a < object_size \<Longrightarrow>
            a + min chunk_size (object_size - a) = min (a + chunk_size) object_size"
      by arith
    then show ?thesis using below by simp
  qed
  moreover from assms have "length (promises s) = ?n" by (simp add: log_ok_def)
  ultimately show ?thesis
    using off below by (simp add: log_ok_def start_chunk_def Let_def)
qed

lemma log_ok_frame:
  "requested t = requested s \<Longrightarrow> length (promises t) = length (promises s) \<Longrightarrow>
   next_chunk_offset t = next_chunk_offset s \<Longrightarrow> log_ok object_size t = log_ok object_size s"
  by (simp add: log_ok_def)

lemma log_ok_start_downloads:
  "log_ok object_size s \<Longrightarrow> log_ok object_size (start_downloads object_size s)"
  by (rule start_downloads_rule) (auto intro: log_ok_start_chunk)

lemma log_ok_settle: "log_ok object_size (settle handle p s) = log_ok object_size s"
  by (rule log_ok_frame) (simp_all add: settle_def)

lemma log_ok_control: "log_ok object_size (s\<lparr>control := c\<rparr>) = log_ok object_size s"
  by (rule log_ok_frame) simp_all

lemma log_ok_step:
  assumes "log_ok object_size s"
  shows "log_ok object_size (step body object_size s ev)"
proof -
  have cb: "log_ok object_size (downloadProgressCallback body object_size handle status s)"
    for handle status
    by (rule callback_cases [where P = "log_ok object_size"]) (simp_all add: assms log_ok_start_downloads log_ok_settle log_ok_control)
  have "log_ok object_size (consumer_get s) = log_ok object_size s"
    by (rule log_ok_frame) (simp_all add: consumer_get_def split: list.splits promise.splits)
  then have g: "log_ok object_size (consumer_get s)" using assms by simp
  have "log_ok object_size (s\<lparr>chunks := tl (chunks s)\<rparr>) = log_ok object_size s"
    by (rule log_ok_frame) simp_all
  then have "log_ok object_size (start_downloads object_size (s\<lparr>chunks := tl (chunks s)\<rparr>))"
    using assms by (simp add: log_ok_start_downloads)
  then have p: "log_ok object_size (consumer_pop object_size s)"
    by (simp add: consumer_pop_def loop_test_def log_ok_control)
  show ?thesis using cb g p assms by (cases "control s"; cases ev) (simp_all add: step_def)
qed

lemma log_ok_fetch: "log_ok object_size (fetch body object_size evs)"
proof -
  have "log_ok object_size (idle :: 'a download)" by (simp add: log_ok_def idle_def)
  then have "log_ok object_size (enter_loop object_size :: 'a download)"
    by (simp add: enter_loop_def loop_test_def log_ok_control log_ok_start_downloads)
  moreover have "log_ok object_size s \<Longrightarrow> log_ok object_size (foldl (step body object_size) s evs)"
    for s :: "'a download"
    by (induction evs arbitrary: s) (simp_all add: log_ok_step)
  ultimately show ?thesis by (simp add: fetch_def)
qed

lemma offsets_ascending:
  assumes "log_ok object_size s"
  shows "sorted_wrt (<) (map fst (requested s))"
proof -
  from assms have "requested s = map (\<lambda>h. (h * chunk_size, chunk_size)) [0..<length (requested s)]"
    by (simp add: log_ok_def)
  then have "map fst (requested s) = map (\<lambda>h. h * chunk_size) [0..<length (requested s)]"
    by (metis (no_types, lifting) map_map comp_def fst_conv map_eq_conv)
  moreover have "sorted_wrt (<) (map (\<lambda>h. h * chunk_size) [0..<n])" for n
    by (simp add: sorted_wrt_map chunk_size_pos)
  ultimately show ?thesis by simp
qed

subsection \<open>The limits\<close>

lemma limits_ok_start_downloads:
  "limits_ok s \<Longrightarrow> limits_ok (start_downloads object_size s)"
  by (rule start_downloads_rule)
     (auto simp: limits_ok_def may_start_def start_chunk_def Let_def List.insert_def)

lemma limits_ok_settle: "limits_ok s \<Longrightarrow> limits_ok (settle handle p s)"
proof -
  assume a: "limits_ok s"
  have "length (removeAll handle (transfers s)) \<le> length (transfers s)" by simp
  with a have "length (removeAll handle (transfers s)) \<le> max_transfers"
    unfolding limits_ok_def by linarith
  with a show ?thesis by (simp add: limits_ok_def settle_def)
qed

lemma limits_ok_control [simp]: "limits_ok (s\<lparr>control := c\<rparr>) = limits_ok s"
  by (simp add: limits_ok_def)

lemma limits_ok_step:
  assumes "limits_ok s"
  shows "limits_ok (step body object_size s ev)"
proof -
  have cb: "limits_ok (downloadProgressCallback body object_size handle status s)"
    for handle status
    by (rule callback_cases [where P = "limits_ok"]) (simp_all add: assms limits_ok_start_downloads limits_ok_settle)
  have g: "limits_ok (consumer_get s)"
    using assms by (simp add: consumer_get_def limits_ok_def split: list.splits promise.splits)
  have "limits_ok (s\<lparr>chunks := tl (chunks s)\<rparr>)" using assms by (auto simp: limits_ok_def)
  then have "limits_ok (start_downloads object_size (s\<lparr>chunks := tl (chunks s)\<rparr>))"
    by (rule limits_ok_start_downloads)
  then have p: "limits_ok (consumer_pop object_size s)" by (simp add: consumer_pop_def loop_test_def)
  show ?thesis using cb g p assms by (cases "control s"; cases ev) (simp_all add: step_def)
qed

lemma limits_ok_fetch: "limits_ok (fetch body object_size evs)"
proof -
  have "limits_ok (idle :: 'a download)" by (simp add: limits_ok_def idle_def)
  then have "limits_ok (enter_loop object_size :: 'a download)"
    by (simp add: enter_loop_def loop_test_def limits_ok_start_downloads)
  moreover have "limits_ok s \<Longrightarrow> limits_ok (foldl (step body object_size) s evs)"
    for s :: "'a download"
    by (induction evs arbitrary: s) (simp_all add: limits_ok_step)
  ultimately show ?thesis by (simp add: fetch_def)
qed

subsection \<open>No promise is ever satisfied\<close>

lemma unsatisfied_start_chunk: "unsatisfied s \<Longrightarrow> unsatisfied (start_chunk object_size s)"
  by (auto simp: unsatisfied_def start_chunk_def Let_def nth_append less_Suc_eq)

lemma unsatisfied_start_downloads:
  "unsatisfied s \<Longrightarrow> unsatisfied (start_downloads object_size s)"
  by (rule start_downloads_rule) (auto intro: unsatisfied_start_chunk)

lemma unsatisfied_settle:
  assumes "unsatisfied s"
  shows "unsatisfied (settle handle (Exception (runtime_error ''Error from AWS'')) s)"
proof -
  let ?p = "(promises s)[handle := Exception (runtime_error ''Error from AWS'')]"
  have v: "?p ! h \<noteq> Value v" if "h < length (promises s)" for h v
    using assms that by (cases "h = handle") (simp_all add: unsatisfied_def)
  have e: "e = runtime_error ''Error from AWS''"
    if "h < length (promises s)" and "?p ! h = Exception e" for h e
    using assms that by (cases "h = handle") (simp_all add: unsatisfied_def)
  from assms have "sink s = []" and "control s \<noteq> AtPop"
    and "\<forall>h\<in>set (chunks s). h < length (promises s)"
    and "length (requested s) = length (promises s)"
    and "\<forall>e. control s = Thrown e \<longrightarrow> e = runtime_error ''Error from AWS''"
    unfolding unsatisfied_def by blast+
  with v e show ?thesis by (simp add: unsatisfied_def settle_def)
qed

lemma unsatisfied_crashed: "unsatisfied s \<Longrightarrow> unsatisfied (s\<lparr>control := Crashed\<rparr>)"
  by (simp add: unsatisfied_def)

lemma unsatisfied_consumer_get:
  assumes "unsatisfied s"
  shows "unsatisfied (consumer_get s)"
proof (cases "chunks s")
  case Nil
  then show ?thesis using assms by (simp add: consumer_get_def)
next
  case (Cons front rest)
  with assms have fl: "front < length (promises s)" by (simp add: unsatisfied_def)
  show ?thesis
  proof (cases "promises s ! front")
    case Pending
    with Cons have "consumer_get s = s\<lparr>control := Blocked\<rparr>" by (simp add: consumer_get_def)
    then show ?thesis using assms by (simp add: unsatisfied_def)
  next
    case (Value v)
    with assms fl show ?thesis by (simp add: unsatisfied_def)
  next
    case (Exception e)
    with Cons have c: "consumer_get s = s\<lparr>control := Thrown e\<rparr>" by (simp add: consumer_get_def)
    from assms fl Exception have "e = runtime_error ''Error from AWS''"
      unfolding unsatisfied_def by blast
    then show ?thesis using assms by (simp add: c unsatisfied_def)
  qed
qed

lemma unsatisfied_step:
  assumes "unsatisfied s"
  shows "unsatisfied (step body object_size s ev)"
proof -
  have cb: "unsatisfied (downloadProgressCallback body object_size handle status s)"
    for handle status
    by (rule callback_cases [where P = unsatisfied])
       (simp_all add: assms unsatisfied_start_downloads unsatisfied_settle unsatisfied_crashed)
  from assms have "control s \<noteq> AtPop" by (simp add: unsatisfied_def)
  then show ?thesis
    using cb unsatisfied_consumer_get [OF assms] assms
    by (cases "control s"; cases ev) (simp_all add: step_def)
qed

lemma unsatisfied_foldl:
  "unsatisfied s \<Longrightarrow> unsatisfied (foldl (step body object_size) s evs)"
  by (induction evs arbitrary: s) (simp_all add: unsatisfied_step)

lemma unsatisfied_enter_loop: "unsatisfied (enter_loop object_size)"
proof -
  have "unsatisfied (idle :: 'a download)" by (simp add: unsatisfied_def idle_def)
  then have "unsatisfied (start_downloads object_size (idle :: 'a download))"
    by (rule unsatisfied_start_downloads)
  then show ?thesis by (simp add: enter_loop_def loop_test_def unsatisfied_def)
qed

lemma unsatisfied_fetch: "unsatisfied (fetch body object_size evs)"
  unfolding fetch_def using unsatisfied_enter_loop by (rule unsatisfied_foldl)

text \<open>For an object that is not empty the deque is never empty and the loop never ends.\<close>

lemma waiting_step:
  assumes "unsatisfied s" and "chunks s \<noteq> []" and "control s \<noteq> Returned"
  shows "chunks (step body object_size s ev) \<noteq> [] \<and> control (step body object_size s ev) \<noteq> Returned"
proof -
  have cb: "chunks (downloadProgressCallback body object_size handle status s) \<noteq> []
            \<and> control (downloadProgressCallback body object_size handle status s) \<noteq> Returned"
    for handle status
    by (rule callback_cases [where P = "\<lambda>t. chunks t \<noteq> [] \<and> control t \<noteq> Returned"])
       (simp_all add: assms chunks_start_downloads settle_def)
  have g: "chunks (consumer_get s) \<noteq> [] \<and> control (consumer_get s) \<noteq> Returned"
    using assms(2,3) by (simp add: consumer_get_def split: list.splits promise.splits)
  from assms(1) have "control s \<noteq> AtPop" by (simp add: unsatisfied_def)
  then show ?thesis
    using cb g assms(2,3) by (cases "control s"; cases ev) (simp_all add: step_def)
qed

lemma waiting_foldl:
  assumes "unsatisfied s" and "chunks s \<noteq> []" and "control s \<noteq> Returned"
  shows "chunks (foldl (step body object_size) s evs) \<noteq> []
       \<and> control (foldl (step body object_size) s evs) \<noteq> Returned"
  using assms
proof (induction evs arbitrary: s)
  case Nil
  then show ?case by simp
next
  case (Cons ev evs)
  from waiting_step [OF Cons.prems, of body object_size ev] unsatisfied_step [OF Cons.prems(1), of body object_size ev]
  show ?case using Cons.IH by simp
qed

lemma enter_loop_nonempty:
  "chunks (enter_loop (Suc n) :: 'a download) \<noteq> []
   \<and> control (enter_loop (Suc n) :: 'a download) = AtGet"
proof -
  have m: "may_start (Suc n) (idle :: 'a download)"
    by (simp add: may_start_def idle_def max_transfers_def max_chunks_def)
  have "chunks (start_chunk (Suc n) (idle :: 'a download)) \<noteq> []"
    by (simp add: start_chunk_def Let_def)
  then have "chunks (start_downloads (Suc n) (start_chunk (Suc n) (idle :: 'a download))) \<noteq> []"
    by (rule chunks_start_downloads)
  then have "chunks (start_downloads (Suc n) (idle :: 'a download)) \<noteq> []"
    using m by (simp add: start_downloads.simps [of "Suc n" idle])
  then show ?thesis by (simp add: enter_loop_def loop_test_def)
qed

lemma nonempty_never_returns:
  fixes body :: "nat \<Rightarrow> nat \<Rightarrow> 'a list"
  shows "control (fetch body (Suc n) evs) \<noteq> Returned"
proof -
  let ?s = "enter_loop (Suc n) :: 'a download"
  have c: "chunks ?s \<noteq> []" and r: "control ?s \<noteq> Returned"
    using enter_loop_nonempty [where 'a = 'a, of n] by simp_all
  from waiting_foldl [OF unsatisfied_enter_loop c r, of body "Suc n" evs]
  show ?thesis by (simp add: fetch_def)
qed

lemma returned_only_empty:
  assumes "control (fetch body object_size evs) = Returned"
  shows "object_size = 0"
proof (cases object_size)
  case 0
  then show ?thesis .
next
  case (Suc n)
  with assms nonempty_never_returns [of body n evs] show ?thesis by simp
qed

text \<open>
  A consumer that waits on an unsatisfied future while it holds the lock stays there:
  no later event changes the state.
\<close>

lemma blocked_stays:
  "control s = Blocked \<Longrightarrow> foldl (step body object_size) s evs = s"
  by (induction evs) (simp_all add: step_def)

lemma all_pending_start_downloads:
  "\<forall>h<length (promises s). promises s ! h = Pending \<Longrightarrow>
   \<forall>h<length (promises (start_downloads object_size s)). promises (start_downloads object_size s) ! h = Pending"
  by (rule start_downloads_rule) (auto simp: start_chunk_def Let_def nth_append less_Suc_eq)

lemma consumer_first_blocks:
  fixes body :: "nat \<Rightarrow> nat \<Rightarrow> 'a list"
  shows "control (fetch body (Suc n) (Consumer # evs)) = Blocked"
proof -
  let ?s = "enter_loop (Suc n) :: 'a download"
  have u: "unsatisfied ?s" by (rule unsatisfied_enter_loop)
  from enter_loop_nonempty [where 'a = 'a, of n] obtain front rest where ch: "chunks ?s = front # rest"
    and c: "control ?s = AtGet" by (cases "chunks ?s") auto
  from u ch have fl: "front < length (promises ?s)" by (simp add: unsatisfied_def)
  have "\<forall>h<length (promises (idle :: 'a download)). promises (idle :: 'a download) ! h = Pending"
    by (simp add: idle_def)
  then have "\<forall>h<length (promises (start_downloads (Suc n) (idle :: 'a download))).
               promises (start_downloads (Suc n) (idle :: 'a download)) ! h = Pending"
    by (rule all_pending_start_downloads)
  then have "promises ?s ! front = Pending" using fl by (simp add: enter_loop_def loop_test_def)
  then have "control (step body (Suc n) ?s Consumer) = Blocked"
    using ch c by (simp add: step_def consumer_get_def)
  from blocked_stays [OF this, of body "Suc n" evs] this show ?thesis by (simp add: fetch_def)
qed

text \<open>The equations that evaluate a fetch along a given schedule.\<close>

lemmas eval_fetch =
  getObject_def getObjectSize_def checkAws_def fetch_def enter_loop_def loop_test_def idle_def
  step_def downloadProgressCallback_def settle_def consumer_get_def consumer_pop_def
  complete_def shared_from_this_def
  start_downloads.simps may_start_def start_chunk_def Let_def range_read_def
  chunk_size_def max_transfers_def max_chunks_def

subsection \<open>Bounds, the empty object and the length of a request\<close>

lemma getObject_Success:
  "getObject body (Success object_size) evs ms key =
     (case control (fetch body object_size evs) of
        Returned \<Rightarrow> Some (Inr \<lparr>data = None, data_size = Some object_size, durationMs = ms\<rparr>)
      | Thrown e \<Rightarrow> Some (Inl e)
      | _ \<Rightarrow> None,
      fetch body object_size evs)"
  by (simp add: getObject_def getObjectSize_def checkAws_def Let_def)

lemma getObject_returned:
  "(fst (getObject body (Success object_size) evs ms key) = Some (Inr res))
     = (control (fetch body object_size evs) = Returned
        \<and> res = \<lparr>data = None, data_size = Some object_size, durationMs = ms\<rparr>)"
  by (cases "control (fetch body object_size evs)") (auto simp: getObject_Success)

text \<open>
  C3. In every state of a fetch at most 3 transfers are in flight and at most 5 chunks
  are queued, so at most 5 are buffered and not yet delivered. \<open>start_downloads\<close>
  opens a request only while the cursor is below the object size and both limits
  leave room; each request it opens moves the cursor forward, so the offsets of the
  requests ascend strictly, and the limits still hold after it.
\<close>

theorem download_bounds:
  "length (transfers (fetch body object_size evs)) \<le> 3
   \<and> length (chunks (fetch body object_size evs)) \<le> 5
   \<and> length (buffered (fetch body object_size evs)) \<le> 5
   \<and> sorted_wrt (<) (map fst (requested (fetch body object_size evs)))
   \<and> start_downloads object_size s =
        (if next_chunk_offset s < object_size \<and> length (transfers s) < 3 \<and> length (chunks s) < 5
         then start_downloads object_size (start_chunk object_size s) else s)
   \<and> (next_chunk_offset s < object_size \<and> length (transfers s) < 3 \<and> length (chunks s) < 5
        \<longrightarrow> next_chunk_offset s < next_chunk_offset (start_chunk object_size s)
          \<and> requested (start_chunk object_size s) = requested s @ [(next_chunk_offset s, chunk_size)]
          \<and> length (transfers (start_chunk object_size s)) \<le> 3
          \<and> length (chunks (start_chunk object_size s)) \<le> 5)"
proof -
  let ?f = "fetch body object_size evs"
  have q: "limits_ok ?f" by (rule limits_ok_fetch)
  then have a: "length (transfers ?f) \<le> 3" and b: "length (chunks ?f) \<le> 5"
    by (simp_all add: limits_ok_def max_transfers_def max_chunks_def)
  have "length (buffered ?f) \<le> length (chunks ?f)" by (simp add: buffered_def)
  with b have c: "length (buffered ?f) \<le> 5" by linarith
  have d: "sorted_wrt (<) (map fst (requested ?f))"
    using log_ok_fetch by (rule offsets_ascending)
  have e: "start_downloads object_size s =
        (if next_chunk_offset s < object_size \<and> length (transfers s) < 3 \<and> length (chunks s) < 5
         then start_downloads object_size (start_chunk object_size s) else s)"
    using start_downloads.simps [of object_size s]
    by (simp add: may_start_def max_transfers_def max_chunks_def)
  have f: "next_chunk_offset s < object_size \<and> length (transfers s) < 3 \<and> length (chunks s) < 5
        \<longrightarrow> next_chunk_offset s < next_chunk_offset (start_chunk object_size s)
          \<and> requested (start_chunk object_size s) = requested s @ [(next_chunk_offset s, chunk_size)]
          \<and> length (transfers (start_chunk object_size s)) \<le> 3
          \<and> length (chunks (start_chunk object_size s)) \<le> 5"
    using chunk_size_pos by (auto simp: start_chunk_def Let_def List.insert_def)
  from a b c d e f show ?thesis by blast
qed

theorem download_bounds_witness:
  "length (transfers (fetch (\<lambda>off len. [off]) (300 * 1024 * 1024) [Callback 1 FAILED, Callback 2 FAILED])) \<le> 3
   \<and> chunks (fetch (\<lambda>off len. [off]) (300 * 1024 * 1024) [Callback 1 FAILED, Callback 2 FAILED]) = [0, 1, 2, 3, 4]
   \<and> length (buffered (fetch (\<lambda>off len. [off]) (300 * 1024 * 1024) [Callback 1 FAILED, Callback 2 FAILED])) \<le> 5
   \<and> next_chunk_offset (idle :: nat download) < next_chunk_offset (start_chunk (300 * 1024 * 1024) (idle :: nat download))"
proof -
  have i: "next_chunk_offset (idle :: nat download) < 300 * 1024 * 1024 \<and> length (transfers (idle :: nat download)) < 3
           \<and> length (chunks (idle :: nat download)) < 5"
    by (simp add: idle_def)
  have c: "chunks (fetch (\<lambda>off len. [off]) (300 * 1024 * 1024) [Callback 1 FAILED, Callback 2 FAILED]) = [0, 1, 2, 3, 4]"
    by (simp add: eval_fetch)
  show ?thesis
    using i c download_bounds [of "\<lambda>off len. [off]" "300 * 1024 * 1024" "[Callback 1 FAILED, Callback 2 FAILED]" idle]
    by blast
qed

text \<open>
  C10. For an object whose HEAD request reports size 0 the downloader opens no range
  request, writes nothing to the sink and returns at once, whatever the schedule, with
  \<open>data_size\<close> 0.
\<close>

theorem getObject_empty_object:
  "fst (getObject body (Success 0) evs ms key)
     = Some (Inr \<lparr>data = None, data_size = Some 0, durationMs = ms\<rparr>)
   \<and> requested (snd (getObject body (Success 0) evs ms key)) = []
   \<and> sink (snd (getObject body (Success 0) evs ms key)) = []"
proof -
  have e: "enter_loop 0 = (idle :: 'a download)\<lparr>control := Returned\<rparr>"
    by (simp add: enter_loop_def loop_test_def start_downloads.simps may_start_def idle_def)
  have "foldl (step body 0) ((idle :: 'a download)\<lparr>control := Returned\<rparr>) evs = idle\<lparr>control := Returned\<rparr>"
    by (induction evs) (simp_all add: step_def)
  then have "fetch body 0 evs = idle\<lparr>control := Returned\<rparr>"
    by (simp add: fetch_def e)
  then show ?thesis
    by (simp add: getObject_def getObjectSize_def checkAws_def idle_def)
qed

text \<open>
  C8. The fetch of an object of 70 MiB opens three requests; each asks the transport
  for \<open>chunk_size\<close> bytes (32 MiB), the last one too, although only 6 MiB remain
  after its offset: \<open>DownloadFile\<close> is passed \<open>chunk_size\<close>, not \<open>download_size\<close>.
\<close>

theorem final_request_asks_chunk_size:
  "requested (fetch body (70 * 1024 * 1024) [])
     = [(0, 32 * 1024 * 1024), (32 * 1024 * 1024, 32 * 1024 * 1024), (64 * 1024 * 1024, 32 * 1024 * 1024)]
   \<and> next_chunk_offset (fetch body (70 * 1024 * 1024) []) = 70 * 1024 * 1024
   \<and> (70 * 1024 * 1024 - 64 * 1024 * 1024 :: nat) = 6 * 1024 * 1024"
  by (simp add: fetch_def enter_loop_def loop_test_def idle_def
          start_downloads.simps may_start_def start_chunk_def Let_def
          chunk_size_def max_transfers_def max_chunks_def)

subsection \<open>What the sink receives\<close>

text \<open>
  C1. For an object that is not empty nothing is delivered. \<open>Chunk::complete\<close> throws
  \<open>std::bad_weak_ptr\<close> before the promise is satisfied, so along every schedule no
  promise ever holds a chunk, the sink receives no write, and \<open>getObject\<close> never
  returns a result: either it has not returned, or the wait on a failed chunk has
  thrown \<open>std::runtime_error\<close>. When the consumer reaches its first wait before a
  callback has run, it waits on an unsatisfied future while it holds the mutex, and the
  call never returns.
\<close>

theorem nonempty_object_is_never_delivered:
  "sink (snd (getObject body (Success (Suc n)) evs ms key)) = []
   \<and> (\<forall>res. fst (getObject body (Success (Suc n)) evs ms key) \<noteq> Some (Inr res))
   \<and> (fst (getObject body (Success (Suc n)) evs ms key) = None
       \<or> fst (getObject body (Success (Suc n)) evs ms key)
            = Some (Inl (runtime_error ''Error from AWS'')))
   \<and> fst (getObject body (Success (Suc n)) (Consumer # evs) ms key) = None
   \<and> (\<forall>h<length (promises (snd (getObject body (Success (Suc n)) evs ms key))).
         \<forall>v. promises (snd (getObject body (Success (Suc n)) evs ms key)) ! h \<noteq> Value v)
   \<and> complete (body 0 chunk_size) = Inl bad_weak_ptr"
proof -
  let ?s = "fetch body (Suc n) evs"
  have s: "snd (getObject body (Success (Suc n)) evs ms key) = ?s" by (simp add: getObject_Success)
  have u: "unsatisfied ?s" by (rule unsatisfied_fetch)
  then have a: "sink ?s = []" by (simp add: unsatisfied_def)
  have nr: "control ?s \<noteq> Returned" by (rule nonempty_never_returns)
  then have b: "\<forall>res. fst (getObject body (Success (Suc n)) evs ms key) \<noteq> Some (Inr res)"
    by (simp add: getObject_returned)
  from u have "\<forall>e. control ?s = Thrown e \<longrightarrow> e = runtime_error ''Error from AWS''"
    unfolding unsatisfied_def by blast
  with nr have c: "fst (getObject body (Success (Suc n)) evs ms key) = None
       \<or> fst (getObject body (Success (Suc n)) evs ms key)
            = Some (Inl (runtime_error ''Error from AWS''))"
    by (cases "control ?s") (auto simp: getObject_Success)
  have d: "fst (getObject body (Success (Suc n)) (Consumer # evs) ms key) = None"
    using consumer_first_blocks [of body n evs] by (simp add: getObject_Success)
  from u have e: "\<forall>h<length (promises ?s). \<forall>v. promises ?s ! h \<noteq> Value v"
    unfolding unsatisfied_def by blast
  have f: "complete (body 0 chunk_size) = Inl bad_weak_ptr" by (rule complete_throws)
  from a b c d e f show ?thesis unfolding s by blast
qed

theorem nonempty_object_is_never_delivered_witness:
  "sink (snd (getObject (range_read ''abc'') (Success (Suc 2))
       [Callback 0 COMPLETED, Consumer, Consumer] 5 ''a.nar'')) = []
   \<and> fst (getObject (range_read ''abc'') (Success (Suc 2))
       [Callback 0 COMPLETED, Consumer, Consumer] 5 ''a.nar'') = None"
proof -
  have "fst (getObject (range_read ''abc'') (Success (Suc 2))
       [Callback 0 COMPLETED, Consumer, Consumer] 5 ''a.nar'') = None"
    by (simp add: eval_fetch)
  with nonempty_object_is_never_delivered
         [of "range_read ''abc''" 2 "[Callback 0 COMPLETED, Consumer, Consumer]" 5 "''a.nar''"]
  show ?thesis by blast
qed

subsection \<open>A failed transfer\<close>

text \<open>
  As long as the callback has reported no failure for the first transfer, the oldest
  future is the one of handle 0 and it is not satisfied.
\<close>

lemma front_pending_start_downloads:
  assumes "\<exists>rest. chunks s = 0 # rest" and "0 < length (promises s)" and "promises s ! 0 = Pending"
  shows "(\<exists>rest. chunks (start_downloads object_size s) = 0 # rest)
       \<and> 0 < length (promises (start_downloads object_size s))
       \<and> promises (start_downloads object_size s) ! 0 = Pending"
  by (rule start_downloads_rule) (use assms in \<open>auto simp: start_chunk_def Let_def nth_append\<close>)

lemma front_pending_step:
  assumes c: "\<exists>rest. chunks s = 0 # rest" and l: "0 < length (promises s)"
    and p: "promises s ! 0 = Pending"
    and k: "control s = AtGet \<or> control s = Blocked \<or> control s = Crashed"
    and e: "\<forall>st. ev = Callback 0 st \<longrightarrow> st = NOT_STARTED \<or> st = IN_PROGRESS \<or> st = COMPLETED"
  shows "(\<exists>rest. chunks (step body object_size s ev) = 0 # rest)
       \<and> 0 < length (promises (step body object_size s ev))
       \<and> promises (step body object_size s ev) ! 0 = Pending
       \<and> (control (step body object_size s ev) = AtGet
            \<or> control (step body object_size s ev) = Blocked
            \<or> control (step body object_size s ev) = Crashed)"
proof (cases "control s = AtGet")
  case False
  with k have "step body object_size s ev = s" by (auto simp: step_def)
  with c l p k show ?thesis by simp
next
  case True
  show ?thesis
  proof (cases ev)
    case Consumer
    with True c p have "step body object_size s ev = s\<lparr>control := Blocked\<rparr>"
      by (auto simp: step_def consumer_get_def)
    with c l p show ?thesis by simp
  next
    case (Callback handle status)
    have st: "step body object_size s ev = downloadProgressCallback body object_size handle status s"
      using True Callback by (simp add: step_def)
    have sd: "(\<exists>rest. chunks (start_downloads object_size s) = 0 # rest)
       \<and> 0 < length (promises (start_downloads object_size s))
       \<and> promises (start_downloads object_size s) ! 0 = Pending
       \<and> control (start_downloads object_size s) = AtGet"
      using front_pending_start_downloads [OF c l p] True by simp
    have fl: "(\<exists>rest. chunks (start_downloads object_size (settle handle q s)) = 0 # rest)
       \<and> 0 < length (promises (start_downloads object_size (settle handle q s)))
       \<and> promises (start_downloads object_size (settle handle q s)) ! 0 = Pending
       \<and> control (start_downloads object_size (settle handle q s)) = AtGet" if "handle \<noteq> 0" for q
    proof -
      have "\<exists>rest. chunks (settle handle q s) = 0 # rest" using c by (simp add: settle_def)
      moreover have "0 < length (promises (settle handle q s))" using l by (simp add: settle_def)
      moreover have "promises (settle handle q s) ! 0 = Pending"
        using p that by (simp add: settle_def)
      ultimately show ?thesis
        using front_pending_start_downloads [of "settle handle q s" object_size] True
        by (simp add: settle_def)
    qed
    have cr: "(\<exists>rest. chunks (s\<lparr>control := Crashed\<rparr>) = 0 # rest)
       \<and> 0 < length (promises (s\<lparr>control := Crashed\<rparr>))
       \<and> promises (s\<lparr>control := Crashed\<rparr>) ! 0 = Pending"
      using c l p by simp
    have h: "handle \<noteq> 0" if "status \<noteq> NOT_STARTED" and "status \<noteq> IN_PROGRESS" and "status \<noteq> COMPLETED"
      using e Callback that by auto
    show ?thesis
      unfolding st
      using sd fl [OF h] cr c l p True
      by (cases status) (simp_all add: downloadProgressCallback_def)
  qed
qed

lemma front_pending_foldl:
  assumes "\<exists>rest. chunks s = 0 # rest" and "0 < length (promises s)"
    and "promises s ! 0 = Pending"
    and "control s = AtGet \<or> control s = Blocked \<or> control s = Crashed"
    and "\<forall>st. Callback 0 st \<in> set evs \<longrightarrow> st = NOT_STARTED \<or> st = IN_PROGRESS \<or> st = COMPLETED"
  shows "control (foldl (step body object_size) s evs) = AtGet
       \<or> control (foldl (step body object_size) s evs) = Blocked
       \<or> control (foldl (step body object_size) s evs) = Crashed"
  using assms
proof (induction evs arbitrary: s)
  case Nil
  then show ?case by simp
next
  case (Cons ev evs)
  from Cons.prems(5) have e: "\<forall>st. ev = Callback 0 st \<longrightarrow> st = NOT_STARTED \<or> st = IN_PROGRESS \<or> st = COMPLETED"
    and r: "\<forall>st. Callback 0 st \<in> set evs \<longrightarrow> st = NOT_STARTED \<or> st = IN_PROGRESS \<or> st = COMPLETED"
    by auto
  from front_pending_step [OF Cons.prems(1-4) e, of body object_size]
  have "control (foldl (step body object_size) (step body object_size s ev) evs) = AtGet
       \<or> control (foldl (step body object_size) (step body object_size s ev) evs) = Blocked
       \<or> control (foldl (step body object_size) (step body object_size s ev) evs) = Crashed"
    using r by (intro Cons.IH) blast+
  then show ?case by simp
qed

lemma enter_loop_front:
  "(\<exists>rest. chunks (enter_loop (Suc n) :: 'a download) = 0 # rest)
   \<and> 0 < length (promises (enter_loop (Suc n) :: 'a download))
   \<and> promises (enter_loop (Suc n) :: 'a download) ! 0 = Pending"
proof -
  let ?t = "start_chunk (Suc n) (idle :: 'a download)"
  have m: "may_start (Suc n) (idle :: 'a download)"
    by (simp add: may_start_def idle_def max_transfers_def max_chunks_def)
  have "(\<exists>rest. chunks (start_downloads (Suc n) ?t) = 0 # rest)
       \<and> 0 < length (promises (start_downloads (Suc n) ?t))
       \<and> promises (start_downloads (Suc n) ?t) ! 0 = Pending"
    by (rule front_pending_start_downloads) (simp_all add: start_chunk_def Let_def idle_def)
  then show ?thesis
    using m by (simp add: enter_loop_def loop_test_def start_downloads.simps [of "Suc n" idle])
qed

text \<open>
  Only a failure of the first transfer can reach the caller: along a schedule in which
  the callback never reports a failure for handle 0, the call neither returns nor
  throws.
\<close>

lemma other_failures_are_not_raised:
  fixes body :: "nat \<Rightarrow> nat \<Rightarrow> 'a list"
  assumes "\<forall>st. Callback 0 st \<in> set evs \<longrightarrow> st = NOT_STARTED \<or> st = IN_PROGRESS \<or> st = COMPLETED"
  shows "fst (getObject body (Success (Suc n)) evs ms key) = None"
proof -
  let ?s = "enter_loop (Suc n) :: 'a download"
  from enter_loop_front [where 'a = 'a, of n]
  have a: "\<exists>rest. chunks ?s = 0 # rest" and b: "0 < length (promises ?s)"
    and c: "promises ?s ! 0 = Pending" by blast+
  from enter_loop_nonempty [where 'a = 'a, of n]
  have d: "control ?s = AtGet \<or> control ?s = Blocked \<or> control ?s = Crashed" by simp
  from front_pending_foldl [OF a b c d assms, of body "Suc n"]
  show ?thesis by (auto simp: getObject_Success fetch_def)
qed

text \<open>
  C2. The fetch of an object of 70 MiB opens three transfers. The callback reports
  \<open>FAILED\<close> for the second one (handle 1), and its promise holds the exception. The
  consumer then waits on the oldest future, the one of handle 0, which is not
  satisfied, and it holds the mutex: whatever happens next, \<open>getObject\<close> neither
  throws nor returns, and the sink has received nothing. The failure is not raised
  either when the callbacks of the other two transfers report \<open>COMPLETED\<close> before
  the consumer runs.
\<close>

theorem failed_transfer_is_not_raised:
  "fst (getObject body (Success (70 * 1024 * 1024)) (Callback 1 FAILED # Consumer # evs) ms key) = None
   \<and> sink (snd (getObject body (Success (70 * 1024 * 1024)) (Callback 1 FAILED # Consumer # evs) ms key)) = []
   \<and> promises (snd (getObject body (Success (70 * 1024 * 1024)) (Callback 1 FAILED # Consumer # evs) ms key))
       = [Pending, Exception (runtime_error ''Error from AWS''), Pending]
   \<and> chunks (snd (getObject body (Success (70 * 1024 * 1024)) (Callback 1 FAILED # Consumer # evs) ms key))
       = [0, 1, 2]
   \<and> control (snd (getObject body (Success (70 * 1024 * 1024)) (Callback 1 FAILED # Consumer # evs) ms key))
       = Blocked
   \<and> fst (getObject body (Success (70 * 1024 * 1024))
        [Callback 1 FAILED, Callback 2 COMPLETED, Callback 0 COMPLETED, Consumer, Consumer, Consumer] ms key) = None"
proof -
  let ?f = "fetch body (70 * 1024 * 1024) [Callback 1 FAILED, Consumer]"
  have a: "control ?f = Blocked" and b: "sink ?f = []"
    and c: "promises ?f = [Pending, Exception (runtime_error ''Error from AWS''), Pending]"
    and d: "chunks ?f = [0, 1, 2]"
    by (simp_all add: eval_fetch)
  have e: "fetch body (70 * 1024 * 1024) (Callback 1 FAILED # Consumer # evs) = ?f"
  proof -
    have "fetch body (70 * 1024 * 1024) (Callback 1 FAILED # Consumer # evs)
            = foldl (step body (70 * 1024 * 1024)) ?f evs"
      by (simp add: fetch_def)
    also have "\<dots> = ?f" using a by (rule blocked_stays)
    finally show ?thesis .
  qed
  have f: "fst (getObject body (Success (70 * 1024 * 1024))
        [Callback 1 FAILED, Callback 2 COMPLETED, Callback 0 COMPLETED, Consumer, Consumer, Consumer] ms key) = None"
    by (simp add: eval_fetch)
  note g = a [unfolded e [symmetric]] b [unfolded e [symmetric]] c [unfolded e [symmetric]]
    d [unfolded e [symmetric]]
  have h: "fst (getObject body (Success (70 * 1024 * 1024)) (Callback 1 FAILED # Consumer # evs) ms key) = None"
    using g(1) by (simp add: getObject_Success)
  have s: "snd (getObject body (Success (70 * 1024 * 1024)) (Callback 1 FAILED # Consumer # evs) ms key)
             = fetch body (70 * 1024 * 1024) (Callback 1 FAILED # Consumer # evs)"
    by (simp add: getObject_Success)
  from h g f show ?thesis unfolding s by blast
qed

subsection \<open>The outcome of getFile\<close>








end
